theory Spec2Isabelle
  imports Main
begin

section \<open>Byte strings\<close>

text \<open>
  The script reads the archive in binary mode and works on Python \<open>bytes\<close> throughout.
  A byte is a \<open>char\<close> (8 bits), a byte string is a \<open>string\<close>.
\<close>

type_synonym bytes = string

abbreviation CR :: char where "CR \<equiv> CHR 0x0D"
abbreviation LF :: char where "LF \<equiv> CHR 0x0A"
abbreviation DQ :: char where "DQ \<equiv> CHR 0x22"
abbreviation SQ :: char where "SQ \<equiv> CHR 0x27"
abbreviation CRLF :: bytes where "CRLF \<equiv> [CR, LF]"

text \<open>\<open>s.startswith(p)\<close>\<close>

fun startswith :: "'a list \<Rightarrow> 'a list \<Rightarrow> bool" where
  "startswith s [] = True"
| "startswith [] (p # ps) = False"
| "startswith (c # cs) (p # ps) = (c = p \<and> startswith cs ps)"

text \<open>\<open>s.endswith(p)\<close>\<close>

definition endswith :: "'a list \<Rightarrow> 'a list \<Rightarrow> bool" where
  "endswith s p = startswith (rev s) (rev p)"

text \<open>\<open>p in s\<close> for byte strings: \<open>p\<close> occurs in \<open>s\<close> as a contiguous block.\<close>

fun bytes_in :: "'a list \<Rightarrow> 'a list \<Rightarrow> bool" where
  "bytes_in p [] = (p = [])"
| "bytes_in p (c # cs) = (startswith (c # cs) p \<or> bytes_in p cs)"

section \<open>Classification of a part\<close>

text \<open>
  The loop over the parts tests \<open>b'Content-Type: image' in part_bytes\<close> first and
  \<open>b"Content-Type: text/html" in part_bytes\<close> second; everything else is passed through.
  Both tests are case-sensitive and look at all bytes of the part.
\<close>

datatype kind = Image | Markup | Other

definition classify :: "bytes \<Rightarrow> kind" where
  "classify part_bytes =
     (if bytes_in ''Content-Type: image'' part_bytes then Image
      else if bytes_in ''Content-Type: text/html'' part_bytes then Markup
      else Other)"

section \<open>Library operations on byte strings\<close>

text \<open>ASCII lower case, as \<open>bytes.lower()\<close> and \<open>re.IGNORECASE\<close> on a bytes pattern use it.\<close>

definition lower_byte :: "char \<Rightarrow> char" where
  "lower_byte c =
     (case map_of (zip ''ABCDEFGHIJKLMNOPQRSTUVWXYZ'' ''abcdefghijklmnopqrstuvwxyz'') c of
        None \<Rightarrow> c
      | Some l \<Rightarrow> l)"

definition lower :: "bytes \<Rightarrow> bytes" where
  "lower s = map lower_byte s"

text \<open>A literal of a pattern compiled with \<open>re.IGNORECASE\<close>, matched at the start of \<open>s\<close>.\<close>

definition startswith_ci :: "bytes \<Rightarrow> bytes \<Rightarrow> bool" where
  "startswith_ci s p = startswith (lower s) (lower p)"

text \<open>
  The white space of \<open>bytes.strip()\<close> and of \<open>\s\<close> in a bytes pattern: space, tab, line
  feed, carriage return, vertical tab, form feed.
\<close>

definition is_space :: "char \<Rightarrow> bool" where
  "is_space c = (c \<in> set [CHR '' '', CHR 0x09, LF, CR, CHR 0x0B, CHR 0x0C])"

definition strip :: "bytes \<Rightarrow> bytes" where
  "strip s = rev (dropWhile is_space (rev (dropWhile is_space s)))"

text \<open>
  \<open>s.split(sep)\<close> for a separator that is not empty (the script's separator is
  \<open>b"--"\<close> followed by the boundary token): the pieces between the occurrences of
  \<open>sep\<close>, found from the left without overlap. When \<open>sep\<close> starts at the current byte
  the piece ends and the scan goes on after the separator.
\<close>

fun split_bytes :: "bytes \<Rightarrow> bytes \<Rightarrow> bytes list" where
  "split_bytes sep [] = [[]]"
| "split_bytes sep (c # cs) =
     (if startswith (c # cs) sep then [] # split_bytes sep (drop (length sep - 1) cs)
      else (case split_bytes sep cs of
              [] \<Rightarrow> [[c]]
            | p # ps \<Rightarrow> (c # p) # ps))"

text \<open>
  \<open>re.search(pattern, s)\<close>. A pattern is given by its matcher at a position: the
  matcher takes the text from that position on and returns the length of the match and
  the group the script reads, or \<open>None\<close>. The search tries the positions from the left
  and returns the start, the length and the group of the first match.
\<close>

fun re_search :: "(bytes \<Rightarrow> (nat \<times> 'g) option) \<Rightarrow> bytes \<Rightarrow> (nat \<times> nat \<times> 'g) option" where
  "re_search m [] = (case m [] of None \<Rightarrow> None | Some (n, g) \<Rightarrow> Some (0, n, g))"
| "re_search m (c # cs) =
     (case m (c # cs) of
        Some (n, g) \<Rightarrow> Some (0, n, g)
      | None \<Rightarrow> (case re_search m cs of
                   None \<Rightarrow> None
                 | Some (i, n, g) \<Rightarrow> Some (Suc i, n, g)))"

text \<open>
  \<open>re.sub(pattern, repl, s, count=1)\<close>: the first match is replaced; \<open>repl\<close> gets the
  matched text (group 0).
\<close>

definition re_sub1 :: "(bytes \<Rightarrow> (nat \<times> 'g) option) \<Rightarrow> (bytes \<Rightarrow> bytes) \<Rightarrow> bytes \<Rightarrow> bytes" where
  "re_sub1 m repl s =
     (case re_search m s of
        None \<Rightarrow> s
      | Some (i, n, g) \<Rightarrow> take i s @ repl (take n (drop i s)) @ drop (i + n) s)"

section \<open>The patterns of the script\<close>

definition not_crlf :: "char \<Rightarrow> bool" where
  "not_crlf c = (c \<noteq> CR \<and> c \<noteq> LF)"

text \<open>
  \<open>name ?([^\r\n]+)\<close> with \<open>re.IGNORECASE\<close>, for \<open>Content-Location:\<close> and
  \<open>Content-Transfer-Encoding:\<close>. The optional space is taken when a group of at least one
  byte follows it; otherwise the engine backtracks and the group starts at the space.
\<close>

definition header_line_match :: "bytes \<Rightarrow> bytes \<Rightarrow> (nat \<times> bytes) option" where
  "header_line_match name s =
     (if startswith_ci s name then
        (let r = drop (length name) s;
             g1 = takeWhile not_crlf (drop 1 r);
             g0 = takeWhile not_crlf r
         in if startswith r '' '' \<and> g1 \<noteq> [] then Some (length name + 1 + length g1, g1)
            else if g0 \<noteq> [] then Some (length name + length g0, g0)
            else None)
      else None)"

text \<open>\<open>boundary="([^"]+)"\<close> with \<open>re.IGNORECASE\<close>.\<close>

definition boundary_pattern :: "bytes \<Rightarrow> (nat \<times> bytes) option" where
  "boundary_pattern s =
     (if startswith_ci s (''boundary='' @ [DQ]) then
        (let t = drop 10 s; g = takeWhile (\<lambda>c. c \<noteq> DQ) t
         in if g \<noteq> [] \<and> length g < length t then Some (10 + length g + 1, g) else None)
      else None)"

text \<open>\<open>Content-ID: ?<([^>]+)>\<close> with \<open>re.IGNORECASE\<close>.\<close>

definition content_id_pattern :: "bytes \<Rightarrow> (nat \<times> bytes) option" where
  "content_id_pattern s =
     (if startswith_ci s ''Content-ID:'' then
        (let r = drop 11 s;
             sp = (if startswith r '' '' then 1 else 0);
             t = drop (sp + 1) r;
             g = takeWhile (\<lambda>c. c \<noteq> CHR ''>'') t
         in if startswith (drop sp r) ''<'' \<and> g \<noteq> [] \<and> length g < length t
            then Some (11 + sp + 1 + length g + 1, g)
            else None)
      else None)"

text \<open>
  \<open>\r?\n\r?\n\<close>: the blank line that ends a header block. The group is not used.
\<close>

definition header_end_pattern :: "bytes \<Rightarrow> (nat \<times> unit) option" where
  "header_end_pattern s =
     (let a = (if startswith s [CR] then 1 else 0);
          b = (if startswith (drop (a + 1) s) [CR] then 1 else 0)
      in if startswith (drop a s) [LF] \<and> startswith (drop (a + 1 + b) s) [LF]
         then Some (a + 1 + b + 1, ())
         else None)"

text \<open>
  \<open><img[^>]+>\<close> with \<open>re.IGNORECASE\<close>: the tag name, at least one byte other than
  \<open>>\<close>, and the next \<open>>\<close>.
\<close>

definition img_pattern :: "bytes \<Rightarrow> nat option" where
  "img_pattern s =
     (if startswith_ci s ''<img'' then
        (let t = drop 4 s; g = takeWhile (\<lambda>c. c \<noteq> CHR ''>'') t
         in if g \<noteq> [] \<and> length g < length t then Some (4 + length g + 1) else None)
      else None)"

text \<open>
  \<open>src\s*=\s*(["\']?)([^"\' >]+)\1\<close> with \<open>re.IGNORECASE\<close>. \<open>src_quoted\<close> is the part
  after the white space: an optional quote, the value (the longest run of bytes other
  than the two quotes, space and \<open>>\<close>), and the same quote again. It returns the length
  it matched and the value (group 2).
\<close>

definition src_char :: "char \<Rightarrow> bool" where
  "src_char c = (c \<noteq> DQ \<and> c \<noteq> SQ \<and> c \<noteq> CHR '' '' \<and> c \<noteq> CHR ''>'')"

definition src_quoted :: "bytes \<Rightarrow> (nat \<times> bytes) option" where
  "src_quoted u =
     (case u of
        [] \<Rightarrow> None
      | c # v \<Rightarrow>
          if c = DQ \<or> c = SQ then
            (let g = takeWhile src_char v
             in if g \<noteq> [] \<and> startswith (drop (length g) v) [c] then Some (length g + 2, g)
                else None)
          else
            (let g = takeWhile src_char u
             in if g \<noteq> [] then Some (length g, g) else None))"

text \<open>
  The second \<open>\s*\<close> is greedy and gives bytes back one at a time while the rest of the
  pattern fails: a tab or a line break is white space and also a legal byte of the
  value. \<open>k\<close> is the number of bytes the \<open>\s*\<close> holds.
\<close>

fun src_backtrack :: "bytes \<Rightarrow> nat \<Rightarrow> (nat \<times> bytes) option" where
  "src_backtrack t k =
     (case src_quoted (drop k t) of
        Some (n, g) \<Rightarrow> Some (k + n, g)
      | None \<Rightarrow> (case k of 0 \<Rightarrow> None | Suc j \<Rightarrow> src_backtrack t j))"

definition src_pattern :: "bytes \<Rightarrow> (nat \<times> bytes) option" where
  "src_pattern s =
     (if startswith_ci s ''src'' then
        (let w1 = takeWhile is_space (drop 3 s);
             r = drop (3 + length w1) s
         in if startswith r ''='' then
              (case src_backtrack (drop 1 r) (length (takeWhile is_space (drop 1 r))) of
                 None \<Rightarrow> None
               | Some (n, g) \<Rightarrow> Some (3 + length w1 + 1 + n, g))
            else None)
      else None)"

section \<open>Text (Python \<open>str\<close>)\<close>

text \<open>
  The script decodes three byte strings with \<open>.decode('utf-8', 'ignore')\<close>: the location,
  the old identifier and the value of a \<open>src\<close> attribute. A decoded text is represented
  here by its UTF-8 encoding, which for the result of this decoding is the input with the
  bytes that are not part of a well-formed sequence left out. Every operation the script
  applies to a decoded text is then an operation on bytes: a slash and the ASCII letters
  are single bytes that occur in no other sequence, and two texts are equal exactly when
  their encodings are.
\<close>

definition byte_in :: "char \<Rightarrow> nat \<Rightarrow> nat \<Rightarrow> bool" where
  "byte_in c lo hi = (lo \<le> of_char c \<and> (of_char c :: nat) \<le> hi)"

text \<open>The range of the second byte of a sequence of three or four bytes.\<close>

definition second_lo :: "char \<Rightarrow> nat" where
  "second_lo b = (if b = CHR 0xE0 then 0xA0 else if b = CHR 0xF0 then 0x90 else 0x80)"

definition second_hi :: "char \<Rightarrow> nat" where
  "second_hi b = (if b = CHR 0xED then 0x9F else if b = CHR 0xF4 then 0x8F else 0xBF)"

text \<open>
  The decoder with the error handler \<open>ignore\<close>: a byte that cannot start a sequence is
  dropped; a sequence broken by a byte that cannot continue it is dropped up to that
  byte, which is read again; a sequence cut by the end of the input is dropped.
\<close>

fun utf8_ignore :: "bytes \<Rightarrow> bytes" where
  "utf8_ignore [] = []"
| "utf8_ignore (b # bs) =
     (if byte_in b 0x00 0x7F then b # utf8_ignore bs
      else if byte_in b 0xC2 0xDF then
        (case bs of
           [] \<Rightarrow> []
         | b1 # r1 \<Rightarrow>
             if byte_in b1 0x80 0xBF then b # b1 # utf8_ignore r1 else utf8_ignore bs)
      else if byte_in b 0xE0 0xEF then
        (case bs of
           [] \<Rightarrow> []
         | b1 # r1 \<Rightarrow>
             if byte_in b1 (second_lo b) (second_hi b) then
               (case r1 of
                  [] \<Rightarrow> []
                | b2 # r2 \<Rightarrow>
                    if byte_in b2 0x80 0xBF then b # b1 # b2 # utf8_ignore r2
                    else utf8_ignore r1)
             else utf8_ignore bs)
      else if byte_in b 0xF0 0xF4 then
        (case bs of
           [] \<Rightarrow> []
         | b1 # r1 \<Rightarrow>
             if byte_in b1 (second_lo b) (second_hi b) then
               (case r1 of
                  [] \<Rightarrow> []
                | b2 # r2 \<Rightarrow>
                    if byte_in b2 0x80 0xBF then
                      (case r2 of
                         [] \<Rightarrow> []
                       | b3 # r3 \<Rightarrow>
                           if byte_in b3 0x80 0xBF then b # b1 # b2 # b3 # utf8_ignore r3
                           else utf8_ignore r2)
                    else utf8_ignore r1)
             else utf8_ignore bs)
      else utf8_ignore bs)"

text \<open>
  \<open>boundary.decode()\<close> in the message that reports the boundary is strict: it raises
  \<open>UnicodeDecodeError\<close> unless the bytes are well-formed UTF-8, that is, unless the
  lenient decoder has nothing to drop.
\<close>

definition utf8_valid :: "bytes \<Rightarrow> bool" where
  "utf8_valid s = (utf8_ignore s = s)"

text \<open>\<open>os.path.basename\<close> (POSIX): what follows the last slash.\<close>

definition basename :: "bytes \<Rightarrow> bytes" where
  "basename p = rev (takeWhile (\<lambda>c. c \<noteq> CHR ''/'') (rev p))"

text \<open>
  \<open>os.path.splitext\<close> (POSIX): the extension starts at the last dot of the last
  component, unless only dots come before it in that component.
\<close>

definition splitext :: "bytes \<Rightarrow> bytes \<times> bytes" where
  "splitext p =
     (let name = basename p;
          ext = CHR ''.'' # rev (takeWhile (\<lambda>c. c \<noteq> CHR ''.'') (rev name));
          stem = take (length name - length ext) name
      in if CHR ''.'' \<in> set name \<and> dropWhile (\<lambda>c. c = CHR ''.'') stem \<noteq> []
         then (take (length p - length ext) p, ext)
         else (p, []))"

text \<open>
  \<open>re.sub(r'[^a-zA-Z0-9._-]', '_', filename)\<close>: every character outside the class
  becomes one underscore. A character beyond ASCII is a lead byte and its continuation
  bytes (\<open>0x80\<close> to \<open>0xBF\<close>): the lead byte becomes the underscore and the continuation
  bytes go.
\<close>

definition cid_char :: "char \<Rightarrow> bool" where
  "cid_char c =
     (c \<in> set (''abcdefghijklmnopqrstuvwxyz'' @ ''ABCDEFGHIJKLMNOPQRSTUVWXYZ''
                @ ''0123456789'' @ ''._-''))"

definition sanitize :: "bytes \<Rightarrow> bytes" where
  "sanitize filename =
     map (\<lambda>c. if cid_char c then c else CHR ''_'')
       (filter (\<lambda>c. \<not> byte_in c 0x80 0xBF) filename)"

text \<open>
  \<open>uuid.uuid4().hex[:8]\<close>: eight lower-case hexadecimal digits, the leading 32 bits of
  the random identifier. The draw is a parameter of the model, a number read modulo
  \<open>2 ^ 32\<close>.
\<close>

definition hex_digit :: "nat \<Rightarrow> char" where
  "hex_digit n = ''0123456789abcdef'' ! (n mod 16)"

definition hex8 :: "nat \<Rightarrow> bytes" where
  "hex8 n = map (\<lambda>k. hex_digit (n div 16 ^ k)) [7, 6, 5, 4, 3, 2, 1, 0]"

section \<open>The reference map\<close>

text \<open>
  \<open>ref_map\<close> is a Python \<open>dict\<close>: it keeps the order in which keys were first inserted,
  and an assignment to a key it holds replaces the value in place.
\<close>

type_synonym refmap = "(bytes \<times> bytes) list"

fun dict_set :: "'k \<Rightarrow> 'v \<Rightarrow> ('k \<times> 'v) list \<Rightarrow> ('k \<times> 'v) list" where
  "dict_set k v [] = [(k, v)]"
| "dict_set k v ((k', v') # m) = (if k' = k then (k, v) # m else (k', v') # dict_set k v m)"

definition dict_get :: "('k \<times> 'v) list \<Rightarrow> 'k \<Rightarrow> 'v option" where
  "dict_get m k = map_of m k"

section \<open>Pass 1: the loop over the parts\<close>

text \<open>
  The variables the loop updates. \<open>html_part_info\<close> is the empty dict (\<open>None\<close>) until a
  markup part is met; then it holds the index, the transfer encoding and the bytes of
  that part.
\<close>

record loop_state =
  ref_map :: refmap
  html_part_info :: "(nat \<times> bytes \<times> bytes) option"
  modified_content_parts :: "bytes list"

definition init_state :: loop_state where
  "init_state = \<lparr>ref_map = [], html_part_info = None, modified_content_parts = []\<rparr>"

definition loc_match :: "bytes \<Rightarrow> (nat \<times> nat \<times> bytes) option" where
  "loc_match part_bytes = re_search (header_line_match ''Content-Location:'') part_bytes"

definition old_cid_match :: "bytes \<Rightarrow> (nat \<times> nat \<times> bytes) option" where
  "old_cid_match part_bytes = re_search content_id_pattern part_bytes"

definition encoding_match :: "bytes \<Rightarrow> (nat \<times> nat \<times> bytes) option" where
  "encoding_match part_bytes =
     re_search (header_line_match ''Content-Transfer-Encoding:'') part_bytes"

text \<open>The new identifier of an image part, from its location and the random draw.\<close>

definition sanitized_filename :: "bytes \<Rightarrow> bytes" where
  "sanitized_filename original_location =
     (let s = sanitize (basename original_location)
      in if startswith s ''-'' then ''image'' @ s else s)"

definition new_cid :: "bytes \<Rightarrow> nat \<Rightarrow> bytes" where
  "new_cid original_location draw =
     sanitized_filename original_location @ ''.'' @ hex8 draw @ ''@mhtml.fixer''"

text \<open>The body of the loop for an image part (lines 93 to 136).\<close>

definition image_step :: "nat \<Rightarrow> bytes \<Rightarrow> loop_state \<Rightarrow> loop_state" where
  "image_step draw part_bytes st =
     (case loc_match part_bytes of
        None \<Rightarrow> st\<lparr>modified_content_parts := modified_content_parts st @ [part_bytes]\<rparr>
      | Some (_, _, g) \<Rightarrow>
          (let original_location = utf8_ignore (strip g);
               cid = new_cid original_location draw;
               rm = dict_set original_location cid (ref_map st)
           in case old_cid_match part_bytes of
                Some (_, _, g2) \<Rightarrow>
                  st\<lparr>ref_map := dict_set (utf8_ignore (strip g2)) cid rm,
                     modified_content_parts := modified_content_parts st @
                       [re_sub1 content_id_pattern (\<lambda>_. ''Content-ID: <'' @ cid @ ''>'')
                          part_bytes]\<rparr>
              | None \<Rightarrow>
                  st\<lparr>ref_map := rm,
                     modified_content_parts := modified_content_parts st @
                       [re_sub1 (header_line_match ''Content-Location:'')
                          (\<lambda>m. m @ CRLF @ ''Content-ID: <'' @ cid @ ''>'') part_bytes]\<rparr>))"

text \<open>The body of the loop for a markup part (lines 140 to 145).\<close>

definition html_step :: "bytes \<Rightarrow> loop_state \<Rightarrow> loop_state" where
  "html_step part_bytes st =
     (let encoding = (case encoding_match part_bytes of
                        Some (_, _, g) \<Rightarrow> lower (strip g)
                      | None \<Rightarrow> ''7bit'')
      in st\<lparr>html_part_info := Some (length (modified_content_parts st), encoding, part_bytes),
            modified_content_parts := modified_content_parts st @ [part_bytes]\<rparr>)"

definition pass1_step :: "(nat \<Rightarrow> nat) \<Rightarrow> loop_state \<Rightarrow> nat \<times> bytes \<Rightarrow> loop_state" where
  "pass1_step rnd st ip =
     (case ip of (i, part_bytes) \<Rightarrow>
        (case classify part_bytes of
           Image \<Rightarrow> image_step (rnd i) part_bytes st
         | Markup \<Rightarrow> html_step part_bytes st
         | Other \<Rightarrow> st\<lparr>modified_content_parts := modified_content_parts st @ [part_bytes]\<rparr>))"

text \<open>
  \<open>for i, part_bytes in enumerate(content_parts)\<close>; \<open>rnd i\<close> is the random draw made
  while part \<open>i\<close> is processed.
\<close>

definition pass1 :: "(nat \<Rightarrow> nat) \<Rightarrow> bytes list \<Rightarrow> loop_state" where
  "pass1 rnd content_parts = foldl (pass1_step rnd) init_state (enumerate 0 content_parts)"

section \<open>Pass 2: the image tags of the markup body\<close>

text \<open>The end of \<open>fix_img_tag\<close>: the tag is made to end with \<open>/>\<close>.\<close>

definition self_close :: "bytes \<Rightarrow> bytes" where
  "self_close modified_tag =
     (if endswith modified_tag ''/>'' then modified_tag
      else if endswith modified_tag ''>'' then butlast modified_tag @ ''/>''
      else modified_tag @ ''/>'')"

text \<open>
  The look-up of a reference: the key itself, and when that gives nothing the first
  entry of the map, in its order, whose key has the same file name. A value counts as
  found when it is not empty (\<open>if not new_cid\<close>, \<open>if new_cid\<close>).
\<close>

definition truthy :: "bytes option \<Rightarrow> bool" where
  "truthy v = (v \<noteq> None \<and> v \<noteq> Some [])"

definition lookup_cid :: "refmap \<Rightarrow> bytes \<Rightarrow> bytes option" where
  "lookup_cid rm key_to_check =
     (if truthy (dict_get rm key_to_check) then dict_get rm key_to_check
      else (case find (\<lambda>(loc, cid_val). basename loc = basename key_to_check) rm of
              Some (loc, cid_val) \<Rightarrow> Some cid_val
            | None \<Rightarrow> dict_get rm key_to_check))"

definition key_of_src :: "bytes \<Rightarrow> bytes" where
  "key_of_src src_value =
     (if startswith (lower src_value) ''cid:'' then drop 4 src_value else src_value)"

text \<open>The callback of the substitution (lines 173 to 213).\<close>

definition fix_img_tag :: "refmap \<Rightarrow> bytes \<Rightarrow> bytes" where
  "fix_img_tag rm img_tag_bytes =
     (case re_search src_pattern img_tag_bytes of
        None \<Rightarrow>
          (if endswith img_tag_bytes ''/>'' then img_tag_bytes
           else if endswith img_tag_bytes ''>'' then butlast img_tag_bytes @ ''/>''
           else img_tag_bytes)
      | Some (_, _, g) \<Rightarrow>
          (let cid = lookup_cid rm (key_of_src (utf8_ignore g));
               modified_tag =
                 (if truthy cid
                  then re_sub1 src_pattern (\<lambda>_. ''src='' @ [DQ] @ ''cid:'' @ the cid @ [DQ])
                         img_tag_bytes
                  else img_tag_bytes)
           in self_close modified_tag))"

text \<open>
  \<open>re.sub(br'<img[^>]+>', fix_img_tag, html_body_decoded, flags=re.IGNORECASE)\<close>: every
  match, from the left and without overlap, is replaced by what the callback returns;
  the bytes between the matches are kept. A match has at least six bytes, so after a
  match of \<open>n\<close> bytes at \<open>c # cs\<close> the scan goes on at \<open>drop (n - 1) cs\<close>.
\<close>

fun img_sub :: "(bytes \<Rightarrow> bytes) \<Rightarrow> bytes \<Rightarrow> bytes" where
  "img_sub f [] = []"
| "img_sub f (c # cs) =
     (case img_pattern (c # cs) of
        Some n \<Rightarrow> f (take n (c # cs)) @ img_sub f (drop (n - 1) cs)
      | None \<Rightarrow> c # img_sub f cs)"

section \<open>Quoted-printable\<close>

text \<open>
  \<open>quopri.decodestring\<close> and \<open>quopri.encodestring\<close> are the standard library's
  \<open>binascii.a2b_qp\<close> and \<open>binascii.b2a_qp\<close> with their default arguments (text mode, tabs
  not quoted, no header mode).
\<close>

definition is_hex :: "char \<Rightarrow> bool" where
  "is_hex c = (c \<in> set ''0123456789abcdefABCDEF'')"

definition hex_val :: "char \<Rightarrow> nat" where
  "hex_val c =
     (case map_of (zip ''0123456789abcdefABCDEF''
                     [0, 1, 2, 3, 4, 5, 6, 7, 8, 9, 10, 11, 12, 13, 14, 15, 10, 11, 12, 13, 14, 15]) c of
        Some n \<Rightarrow> n
      | None \<Rightarrow> 0)"

text \<open>
  The decoder: \<open>=\<close> before a line break is a soft break and goes with it (after
  \<open>=\<close> and a carriage return everything up to the next line feed goes); \<open>==\<close> is one
  \<open>=\<close>; \<open>=\<close> and two hexadecimal digits are the byte they name; any other \<open>=\<close> stays;
  \<open>=\<close> at the very end is dropped.
\<close>

function a2b_qp :: "bytes \<Rightarrow> bytes" where
  "a2b_qp [] = []"
| "a2b_qp (c # rest) =
     (if c = CHR ''='' then
        (case rest of
           [] \<Rightarrow> []
         | d # rest' \<Rightarrow>
             if d = LF then a2b_qp rest'
             else if d = CR then a2b_qp (drop 1 (dropWhile (\<lambda>x. x \<noteq> LF) rest'))
             else if d = CHR ''='' then CHR ''='' # a2b_qp rest'
             else if rest' \<noteq> [] \<and> is_hex d \<and> is_hex (hd rest')
               then char_of (16 * hex_val d + hex_val (hd rest')) # a2b_qp (tl rest')
             else CHR ''='' # a2b_qp rest)
      else c # a2b_qp rest)"
  by pat_completeness auto
termination
  by (relation "measure length")
     (auto simp: less_Suc_eq_le intro!: le_SucI order_trans [OF diff_le_self length_dropWhile_le])

text \<open>The encoder writes a byte as \<open>=\<close> and two upper-case hexadecimal digits.\<close>

definition to_hex :: "char \<Rightarrow> bytes" where
  "to_hex c = [''0123456789ABCDEF'' ! (of_char c div 16), ''0123456789ABCDEF'' ! (of_char c mod 16)]"

text \<open>
  The line ending of the output: CRLF when the first line feed of the data follows a
  carriage return, a bare line feed otherwise.
\<close>

definition crlf_of :: "bytes \<Rightarrow> bool" where
  "crlf_of data =
     (let pre = takeWhile (\<lambda>c. c \<noteq> LF) data
      in length pre < length data \<and> pre \<noteq> [] \<and> last pre = CR)"

definition eol :: "bool \<Rightarrow> bytes" where
  "eol crlf = (if crlf then CRLF else [LF])"

text \<open>The bytes written as \<open>=XX\<close>; \<open>linelen\<close> is the length of the output line so far.\<close>

definition needs_quote :: "char \<Rightarrow> nat \<Rightarrow> bytes \<Rightarrow> bool" where
  "needs_quote c linelen rest =
     ((126::nat) < of_char c
      \<or> c = CHR ''=''
      \<or> (c = CHR ''.'' \<and> linelen = 0 \<and>
           (rest = [] \<or> startswith rest [LF] \<or> startswith rest [CR] \<or> startswith rest [CHR 0x00]))
      \<or> ((c = CHR 0x09 \<or> c = CHR '' '') \<and> rest = [])
      \<or> ((of_char c :: nat) < 33 \<and> c \<noteq> CR \<and> c \<noteq> LF \<and> c \<noteq> CHR 0x09 \<and> c \<noteq> CHR '' ''))"

text \<open>
  The encoding loop; \<open>odata\<close> is the output so far. A line break of the data is written
  as the line ending of the output, after a space or tab that ends the line has been
  rewritten as \<open>=20\<close> or \<open>=09\<close>; a soft break goes before a byte that would make the line
  longer than 76.
\<close>

fun b2a_qp_loop :: "bool \<Rightarrow> nat \<Rightarrow> bytes \<Rightarrow> bytes \<Rightarrow> bytes" where
  "b2a_qp_loop crlf linelen odata [] = odata"
| "b2a_qp_loop crlf linelen odata (c # rest) =
     (if needs_quote c linelen rest then
        (if 76 \<le> linelen + 3
         then b2a_qp_loop crlf 3 (odata @ ''='' @ eol crlf @ ''='' @ to_hex c) rest
         else b2a_qp_loop crlf (linelen + 3) (odata @ ''='' @ to_hex c) rest)
      else if c = LF \<or> (c = CR \<and> startswith rest [LF]) then
        b2a_qp_loop crlf 0
          ((if odata \<noteq> [] \<and> (last odata = CHR '' '' \<or> last odata = CHR 0x09)
            then butlast odata @ ''='' @ to_hex (last odata)
            else odata) @ eol crlf)
          (if c = LF then rest else drop 1 rest)
      else
        (if rest \<noteq> [] \<and> \<not> startswith rest [LF] \<and> 76 \<le> linelen + 1
         then b2a_qp_loop crlf 1 (odata @ ''='' @ eol crlf @ [c]) rest
         else b2a_qp_loop crlf (linelen + 1) (odata @ [c]) rest))"

definition b2a_qp :: "bytes \<Rightarrow> bytes" where
  "b2a_qp data = b2a_qp_loop (crlf_of data) 0 [] data"

section \<open>The whole run\<close>

text \<open>
  The files the script can see: a path names no file, a file that cannot be opened for
  reading (\<open>open\<close> raises \<open>IOError\<close>), or a file with its bytes. \<open>writable\<close> tells for
  which paths \<open>open(path, "wb")\<close> succeeds.
\<close>

datatype node = NoAccess | File bytes

record filesystem =
  nodes :: "bytes \<Rightarrow> node option"
  writable :: "bytes \<Rightarrow> bool"

text \<open>
  How a run ends. The first five are the messages the script prints before it returns;
  the last two are exceptions the script does not catch.
\<close>

datatype outcome =
    Done
  | FileNotFound
  | ReadFailed
  | BoundaryNotFound
  | HtmlPartNotFound
  | WriteFailed
  | UnicodeDecodeError
  | AttributeError

text \<open>
  The file written at the end (lines 237 to 245): the header part, every part after the
  boundary and a line break of its own unless it starts with one, and the closing
  boundary.
\<close>

definition reassemble :: "bytes \<Rightarrow> bytes \<Rightarrow> bytes list \<Rightarrow> bytes" where
  "reassemble header_part boundary parts =
     header_part
     @ concat (map (\<lambda>part. boundary @ (if startswith part CRLF then [] else CRLF) @ part) parts)
     @ boundary @ ''--'' @ CRLF"

text \<open>\<open>parts[0]\<close> and \<open>parts[1:-1]\<close> of the split.\<close>

definition header_part_of :: "bytes list \<Rightarrow> bytes" where
  "header_part_of parts = (case parts of [] \<Rightarrow> [] | p # _ \<Rightarrow> p)"

definition content_parts_of :: "bytes list \<Rightarrow> bytes list" where
  "content_parts_of parts = butlast (tl parts)"

text \<open>
  Pass 2 on the markup part that pass 1 recorded (lines 158 to 230): the part is cut
  after the first blank line, the body is decoded, its image tags are rewritten, and the
  body is encoded again. \<open>header_end_match.end()\<close> raises \<open>AttributeError\<close> when there is
  no blank line.
\<close>

definition rewrite_html :: "refmap \<Rightarrow> bytes \<Rightarrow> bytes \<Rightarrow> bytes option" where
  "rewrite_html rm encoding html_part_bytes =
     (case re_search header_end_pattern html_part_bytes of
        None \<Rightarrow> None
      | Some (i, n, _) \<Rightarrow>
          (let header_end_pos = i + n;
               html_headers = take header_end_pos html_part_bytes;
               html_body_encoded = drop header_end_pos html_part_bytes;
               html_body_decoded =
                 (if encoding = ''quoted-printable'' then a2b_qp html_body_encoded
                  else html_body_encoded);
               html_body_modified = img_sub (fix_img_tag rm) html_body_decoded;
               final_html_body =
                 (if encoding = ''quoted-printable'' then b2a_qp html_body_modified
                  else html_body_modified)
           in Some (html_headers @ final_html_body)))"

text \<open>
  Both passes over the parts between the boundaries: the parts as they are written, or
  the way the run ends without output. The part at the recorded index is replaced by its
  rewritten form (line 230).
\<close>

definition rewritten_parts :: "(nat \<Rightarrow> nat) \<Rightarrow> bytes list \<Rightarrow> outcome + bytes list" where
  "rewritten_parts rnd content_parts =
     (let st = pass1 rnd content_parts
      in case html_part_info st of
           None \<Rightarrow> Inl HtmlPartNotFound
         | Some (index, encoding, html_part_bytes) \<Rightarrow>
             (case rewrite_html (ref_map st) encoding html_part_bytes of
                None \<Rightarrow> Inl AttributeError
              | Some new_part \<Rightarrow> Inr ((modified_content_parts st)[index := new_part])))"

text \<open>
  From the bytes of the input to the bytes of the output, or to the way the run ends
  without output.
\<close>

definition transform :: "(nat \<Rightarrow> nat) \<Rightarrow> bytes \<Rightarrow> outcome + bytes" where
  "transform rnd content =
     (case re_search boundary_pattern content of
        None \<Rightarrow> Inl BoundaryNotFound
      | Some (_, _, token) \<Rightarrow>
          (let boundary = ''--'' @ token
           in if \<not> utf8_valid boundary then Inl UnicodeDecodeError
              else
                (let parts = split_bytes boundary content
                 in case rewritten_parts rnd (content_parts_of parts) of
                      Inl e \<Rightarrow> Inl e
                    | Inr new_parts \<Rightarrow>
                        Inr (reassemble (header_part_of parts) boundary new_parts))))"

text \<open>The name of the output: \<open>base + "_fixed" + ext\<close>.\<close>

definition output_file :: "bytes \<Rightarrow> bytes" where
  "output_file input_file = (case splitext input_file of (base, ext) \<Rightarrow> base @ ''_fixed'' @ ext)"

text \<open>
  The function of the script: the way the run ends and the files after it. The output
  is opened only after both passes are done.
\<close>

definition fix_mhtml_image_references ::
  "(nat \<Rightarrow> nat) \<Rightarrow> filesystem \<Rightarrow> bytes \<Rightarrow> outcome \<times> filesystem" where
  "fix_mhtml_image_references rnd fs input_file =
     (case nodes fs input_file of
        None \<Rightarrow> (FileNotFound, fs)
      | Some NoAccess \<Rightarrow> (ReadFailed, fs)
      | Some (File content) \<Rightarrow>
          (case transform rnd content of
             Inl e \<Rightarrow> (e, fs)
           | Inr out \<Rightarrow>
               if writable fs (output_file input_file)
               then (Done, fs\<lparr>nodes := (nodes fs)(output_file input_file \<mapsto> File out)\<rparr>)
               else (WriteFailed, fs)))"

section \<open>Example inputs\<close>

text \<open>
  Three parts as the split leaves them: an image part with a location, an image part
  without one, and a markup part that refers to the first image.
\<close>

definition example_image :: bytes where
  "example_image = CRLF @ ''Content-Type: image/png'' @ CRLF @ ''Content-Location: x.png'' @ CRLF @ CRLF
     @ ''AAA'' @ CRLF"

definition example_bare_image :: bytes where
  "example_bare_image = CRLF @ ''Content-Type: image/png'' @ CRLF @ CRLF @ ''BBB'' @ CRLF"

definition example_html :: bytes where
  "example_html = CRLF @ ''Content-Type: text/html'' @ CRLF @ CRLF @ ''<img src=x.png>'' @ CRLF"

definition example_parts :: "bytes list" where
  "example_parts = [example_image, example_bare_image, example_html]"

text \<open>A markup part with no blank line after its header.\<close>

definition example_unsplit_html :: bytes where
  "example_unsplit_html = ''Content-Type: text/html'' @ CRLF @ ''<img src=x.png>''"

text \<open>A second markup part, and an archive with one part that is plain text.\<close>

definition example_html_second :: bytes where
  "example_html_second = CRLF @ ''Content-Type: text/html'' @ CRLF @ CRLF @ ''<img src=y.png>'' @ CRLF"

definition example_no_markup_file :: bytes where
  "example_no_markup_file =
     ''Content-Type: multipart/related; boundary='' @ [DQ] @ ''B'' @ [DQ] @ CRLF @ CRLF
     @ ''--B'' @ CRLF @ ''Content-Type: text/plain'' @ CRLF @ CRLF @ ''hi'' @ CRLF
     @ ''--B--'' @ CRLF"


section \<open>Facts about byte strings\<close>

lemma startswith_iff: "startswith s p \<longleftrightarrow> (\<exists>r. s = p @ r)"
  by (induction s p rule: startswith.induct) auto

lemma bytes_in_iff: "bytes_in p s \<longleftrightarrow> (\<exists>a c. s = a @ p @ c)"
proof (induction s)
  case Nil
  then show ?case by auto
next
  case (Cons x xs)
  show ?case
  proof
    assume "bytes_in p (x # xs)"
    then consider "startswith (x # xs) p" | "bytes_in p xs" by auto
    then show "\<exists>a c. x # xs = a @ p @ c"
    proof cases
      case 1
      then obtain r where "x # xs = p @ r" by (auto simp: startswith_iff)
      then have "x # xs = [] @ p @ r" by simp
      then show ?thesis by blast
    next
      case 2
      then obtain a c where "xs = a @ p @ c" using Cons.IH by blast
      then have "x # xs = (x # a) @ p @ c" by simp
      then show ?thesis by blast
    qed
  next
    assume "\<exists>a c. x # xs = a @ p @ c"
    then obtain a c where ac: "x # xs = a @ p @ c" by blast
    show "bytes_in p (x # xs)"
    proof (cases a)
      case Nil
      with ac have "startswith (x # xs) p" by (auto simp: startswith_iff)
      then show ?thesis by simp
    next
      case (Cons y ys)
      with ac have "xs = ys @ p @ c" by simp
      then have "bytes_in p xs" using Cons.IH by blast
      then show ?thesis by simp
    qed
  qed
qed

text \<open>
  A pattern without a line feed cannot straddle the end of a block that ends in a
  line feed.
\<close>

lemma bytes_in_append_line:
  assumes h: "h \<noteq> []" "last h = LF" and p: "p \<noteq> []" "LF \<notin> set p"
  shows "bytes_in p (h @ b) \<longleftrightarrow> bytes_in p h \<or> bytes_in p b"
proof
  assume "bytes_in p (h @ b)"
  then obtain a c where ac: "h @ b = a @ p @ c" by (auto simp: bytes_in_iff)
  then consider u where "a = h @ u" "b = u @ p @ c"
    | u where "h = a @ u" "u @ b = p @ c"
    by (auto simp: append_eq_append_conv2)
  then show "bytes_in p h \<or> bytes_in p b"
  proof cases
    case 1
    then show ?thesis by (auto simp: bytes_in_iff)
  next
    case 2
    from 2(2) consider v where "u = p @ v" | v where "p = u @ v" "b = v @ c"
      by (auto simp: append_eq_append_conv2)
    then show ?thesis
    proof cases
      case 1
      with 2(1) have "h = a @ p @ v" by simp
      then show ?thesis by (auto simp: bytes_in_iff)
    next
      case 2
      show ?thesis
      proof (cases "u = []")
        case True
        with 2 have "b = [] @ p @ c" by simp
        then show ?thesis unfolding bytes_in_iff by blast
      next
        case False
        with \<open>h = a @ u\<close> have "last h = last u" by simp
        with h False have "LF \<in> set u" by (metis last_in_set)
        with 2 p show ?thesis by simp
      qed
    qed
  qed
next
  assume "bytes_in p h \<or> bytes_in p b"
  then show "bytes_in p (h @ b)"
  proof
    assume "bytes_in p h"
    then obtain a c where "h = a @ p @ c" by (auto simp: bytes_in_iff)
    then have "h @ b = a @ p @ (c @ b)" by simp
    then show ?thesis unfolding bytes_in_iff by blast
  next
    assume "bytes_in p b"
    then obtain a c where "b = a @ p @ c" by (auto simp: bytes_in_iff)
    then have "h @ b = (h @ a) @ p @ c" by simp
    then show ?thesis unfolding bytes_in_iff by blast
  qed
qed

section \<open>Facts about searching and about pass 1\<close>

lemma re_search_None_iff: "re_search m s = None \<longleftrightarrow> (\<forall>i\<le>length s. m (drop i s) = None)"
proof (induction s)
  case Nil
  show ?case by (auto split: option.splits)
next
  case (Cons c cs)
  have "(\<forall>i\<le>length (c # cs). m (drop i (c # cs)) = None) \<longleftrightarrow>
        m (c # cs) = None \<and> (\<forall>i\<le>length cs. m (drop i cs) = None)"
  proof
    assume a: "\<forall>i\<le>length (c # cs). m (drop i (c # cs)) = None"
    have "m (drop 0 (c # cs)) = None" using a by blast
    moreover have "m (drop i cs) = None" if "i \<le> length cs" for i
      using a [rule_format, of "Suc i"] that by simp
    ultimately show "m (c # cs) = None \<and> (\<forall>i\<le>length cs. m (drop i cs) = None)" by simp
  next
    assume a: "m (c # cs) = None \<and> (\<forall>i\<le>length cs. m (drop i cs) = None)"
    show "\<forall>i\<le>length (c # cs). m (drop i (c # cs)) = None"
    proof (intro allI impI)
      fix i assume "i \<le> length (c # cs)"
      then show "m (drop i (c # cs)) = None" using a by (cases i) auto
    qed
  qed
  then show ?case using Cons.IH by (auto split: option.splits)
qed


lemma pass1_snoc:
  "pass1 rnd (xs @ [x]) = pass1_step rnd (pass1 rnd xs) (length xs, x)"
  by (simp add: pass1_def enumerate_append_eq)

lemma pass1_Nil: "pass1 rnd [] = init_state"
  by (simp add: pass1_def)

lemma pass1_step_parts:
  "\<exists>q. modified_content_parts (pass1_step rnd st (i, p)) = modified_content_parts st @ [q]
       \<and> ((classify p \<noteq> Image \<or> loc_match p = None) \<longrightarrow> q = p)"
  by (cases "classify p")
     (auto simp: pass1_step_def image_step_def html_step_def Let_def split: option.splits prod.splits)

lemma pass1_step_ref_map:
  "classify p \<noteq> Image \<or> loc_match p = None \<Longrightarrow>
     ref_map (pass1_step rnd st (i, p)) = ref_map st"
  by (cases "classify p")
     (auto simp: pass1_step_def image_step_def html_step_def Let_def split: option.splits prod.splits)

lemma length_pass1: "length (modified_content_parts (pass1 rnd ps)) = length ps"
proof (induction ps rule: rev_induct)
  case Nil
  show ?case by (simp add: pass1_Nil init_state_def)
next
  case (snoc x xs)
  obtain q where "modified_content_parts (pass1_step rnd (pass1 rnd xs) (length xs, x))
      = modified_content_parts (pass1 rnd xs) @ [q]"
    using pass1_step_parts by blast
  then show ?case using snoc by (simp add: pass1_snoc)
qed

lemma pass1_nth_unchanged:
  "i < length ps \<Longrightarrow> classify (ps ! i) \<noteq> Image \<or> loc_match (ps ! i) = None \<Longrightarrow>
     modified_content_parts (pass1 rnd ps) ! i = ps ! i"
proof (induction ps rule: rev_induct)
  case Nil
  then show ?case by simp
next
  case (snoc x xs)
  obtain q where q: "modified_content_parts (pass1_step rnd (pass1 rnd xs) (length xs, x))
      = modified_content_parts (pass1 rnd xs) @ [q]"
     "(classify x \<noteq> Image \<or> loc_match x = None) \<longrightarrow> q = x"
    using pass1_step_parts by blast
  show ?case
  proof (cases "i < length xs")
    case True
    with snoc show ?thesis by (simp add: pass1_snoc q(1) nth_append length_pass1)
  next
    case False
    with snoc.prems have "i = length xs" by simp
    with snoc.prems q show ?thesis by (simp add: pass1_snoc nth_append length_pass1)
  qed
qed

text \<open>\<open>html_part_info\<close> holds the last markup part of the list.\<close>

lemma pass1_step_html:
  "html_part_info (pass1_step rnd st (i, p)) =
     (if classify p = Markup
      then Some (length (modified_content_parts st),
                 (case encoding_match p of Some (_, _, g) \<Rightarrow> lower (strip g) | None \<Rightarrow> ''7bit''), p)
      else html_part_info st)"
  by (cases "classify p")
     (auto simp: pass1_step_def image_step_def html_step_def Let_def split: option.splits prod.splits)

lemma pass1_html_None:
  "html_part_info (pass1 rnd ps) = None \<longleftrightarrow> (\<forall>p\<in>set ps. classify p \<noteq> Markup)"
proof (induction ps rule: rev_induct)
  case Nil
  show ?case by (simp add: pass1_Nil init_state_def)
next
  case (snoc x xs)
  then show ?case by (auto simp: pass1_snoc pass1_step_html)
qed

lemma pass1_html_Some:
  "html_part_info (pass1 rnd ps) = Some (idx, enc, b) \<Longrightarrow>
     idx < length ps \<and> b = ps ! idx \<and> classify (ps ! idx) = Markup
     \<and> (\<forall>j. idx < j \<and> j < length ps \<longrightarrow> classify (ps ! j) \<noteq> Markup)
     \<and> enc = (case encoding_match b of Some (_, _, g) \<Rightarrow> lower (strip g) | None \<Rightarrow> ''7bit'')"
proof (induction ps rule: rev_induct)
  case Nil
  then show ?case by (simp add: pass1_Nil init_state_def)
next
  case (snoc x xs)
  show ?case
  proof (cases "classify x = Markup")
    case True
    with snoc.prems show ?thesis
      by (auto simp: pass1_snoc pass1_step_html length_pass1 nth_append)
  next
    case False
    with snoc.prems have "html_part_info (pass1 rnd xs) = Some (idx, enc, b)"
      by (simp add: pass1_snoc pass1_step_html)
    from snoc.IH [OF this] False show ?thesis
      by (auto simp: nth_append less_Suc_eq)
  qed
qed

lemma pass1_last_markup:
  assumes "i < length ps" and "classify (ps ! i) = Markup"
    and "\<forall>j. i < j \<and> j < length ps \<longrightarrow> classify (ps ! j) \<noteq> Markup"
  shows "html_part_info (pass1 rnd ps) =
     Some (i, (case encoding_match (ps ! i) of Some (_, _, g) \<Rightarrow> lower (strip g) | None \<Rightarrow> ''7bit''), ps ! i)"
proof -
  have "ps ! i \<in> set ps" using assms(1) by simp
  with assms(2) have "html_part_info (pass1 rnd ps) \<noteq> None"
    unfolding pass1_html_None by blast
  then obtain idx enc b where h: "html_part_info (pass1 rnd ps) = Some (idx, enc, b)"
    by (cases "html_part_info (pass1 rnd ps)") auto
  note s = pass1_html_Some [OF h]
  have "\<not> idx < i" using s assms(1,2) by blast
  moreover have "\<not> i < idx" using s assms(3) by blast
  ultimately have "idx = i" by simp
  with h s show ?thesis by simp
qed

section \<open>Facts about the parts of pass 1 and about the new identifier\<close>





lemma hex_digit_in: "hex_digit n \<in> set ''0123456789abcdef''"
proof -
  have "n mod 16 < length ''0123456789abcdef''" by simp
  then have "''0123456789abcdef'' ! (n mod 16) \<in> set ''0123456789abcdef''"
    by (rule nth_mem)
  then show ?thesis by (simp only: hex_digit_def)
qed

lemma set_hex8: "set (hex8 d) \<subseteq> set ''0123456789abcdef''"
  unfolding hex8_def using hex_digit_in by auto

lemma cid_char_sanitize: "c \<in> set (sanitize f) \<Longrightarrow> cid_char c"
proof -
  have u: "cid_char (CHR ''_'')" by (simp add: cid_char_def)
  assume "c \<in> set (sanitize f)"
  then show "cid_char c" using u by (auto simp: sanitize_def split: if_splits)
qed

lemma cid_char_sanitized_filename: "c \<in> set (sanitized_filename loc) \<Longrightarrow> cid_char c"
proof -
  assume a: "c \<in> set (sanitized_filename loc)"
  have i: "\<forall>x\<in>set ''image''. cid_char x" by (simp add: cid_char_def)
  from a have "c \<in> set ''image'' \<or> c \<in> set (sanitize (basename loc))"
    by (auto simp: sanitized_filename_def Let_def split: if_splits)
  with i cid_char_sanitize show ?thesis by blast
qed


lemma new_cid_chars: "set (new_cid loc d) \<subseteq> {c. cid_char c} \<union> {CHR ''@''}"
proof
  fix c
  assume "c \<in> set (new_cid loc d)"
  then have "c \<in> set (sanitized_filename loc) \<union> (set ''.'' \<union> (set (hex8 d) \<union> set ''@mhtml.fixer''))"
    by (simp only: new_cid_def set_append)
  then consider "c \<in> set (sanitized_filename loc)" | "c \<in> set ''.''" | "c \<in> set (hex8 d)"
    | "c \<in> set ''@mhtml.fixer''"
    by blast
  then show "c \<in> {c. cid_char c} \<union> {CHR ''@''}"
  proof cases
    case 1
    then show ?thesis using cid_char_sanitized_filename by simp
  next
    case 2
    have "\<forall>x\<in>set ''.''. cid_char x" by (simp add: cid_char_def)
    with 2 show ?thesis by blast
  next
    case 3
    have "\<forall>x\<in>set ''0123456789abcdef''. cid_char x" by (simp add: cid_char_def)
    with 3 set_hex8 show ?thesis by blast
  next
    case 4
    have "\<forall>x\<in>set ''@mhtml.fixer''. cid_char x \<or> x = CHR ''@''" by (simp add: cid_char_def)
    with 4 show ?thesis by blast
  qed
qed

section \<open>Facts about the blank line that ends a header block\<close>

text \<open>
  The pattern \<open>\r?\n\r?\n\<close> matches somewhere in a byte string exactly when the string
  holds a line feed directly followed by a line end, \<open>\n\<close> or \<open>\r\n\<close>.
\<close>

lemma bytes_in_drop_iff: "bytes_in p s \<longleftrightarrow> (\<exists>i\<le>length s. startswith (drop i s) p)"
proof (induction s)
  case Nil
  show ?case by (cases p) auto
next
  case (Cons c cs)
  have "(\<exists>i\<le>length (c # cs). startswith (drop i (c # cs)) p) \<longleftrightarrow>
        startswith (c # cs) p \<or> (\<exists>i\<le>length cs. startswith (drop i cs) p)"
  proof
    assume "\<exists>i\<le>length (c # cs). startswith (drop i (c # cs)) p"
    then obtain i where i: "i \<le> length (c # cs)" "startswith (drop i (c # cs)) p" by blast
    show "startswith (c # cs) p \<or> (\<exists>i\<le>length cs. startswith (drop i cs) p)"
    proof (cases i)
      case 0
      with i show ?thesis by simp
    next
      case (Suc j)
      with i have "j \<le> length cs" "startswith (drop j cs) p" by simp_all
      then show ?thesis by blast
    qed
  next
    assume "startswith (c # cs) p \<or> (\<exists>i\<le>length cs. startswith (drop i cs) p)"
    then show "\<exists>i\<le>length (c # cs). startswith (drop i (c # cs)) p"
    proof
      assume "startswith (c # cs) p"
      then have "0 \<le> length (c # cs) \<and> startswith (drop 0 (c # cs)) p" by simp
      then show ?thesis by blast
    next
      assume "\<exists>i\<le>length cs. startswith (drop i cs) p"
      then obtain i where "i \<le> length cs" "startswith (drop i cs) p" by blast
      then have "Suc i \<le> length (c # cs) \<and> startswith (drop (Suc i) (c # cs)) p" by simp
      then show ?thesis by blast
    qed
  qed
  then show ?case using Cons.IH by simp
qed

lemma startswith_Cons: "startswith s (c # p) \<longleftrightarrow> (\<exists>r. s = c # r \<and> startswith r p)"
  by (cases s) auto

lemma header_end_pattern_iff:
  "header_end_pattern s \<noteq> None \<longleftrightarrow>
     startswith s [CR, LF, CR, LF] \<or> startswith s [CR, LF, LF]
     \<or> startswith s [LF, CR, LF] \<or> startswith s [LF, LF]"
  by (auto simp: header_end_pattern_def startswith_Cons)

lemma drop_eq_Cons_Suc: "drop i s = x # r \<Longrightarrow> Suc i \<le> length s \<and> drop (Suc i) s = r"
proof -
  assume a: "drop i s = x # r"
  have "i < length s"
  proof (rule ccontr)
    assume "\<not> i < length s"
    then have "drop i s = []" by simp
    with a show False by simp
  qed
  moreover have "drop (Suc i) s = drop 1 (drop i s)" by simp
  ultimately show ?thesis using a by simp
qed

lemma bytes_in_dropI: "i \<le> length s \<Longrightarrow> startswith (drop i s) p \<Longrightarrow> bytes_in p s"
  unfolding bytes_in_drop_iff by blast

lemma startswith_drop_Suc:
  assumes "startswith (drop i s) (x # p)"
  shows "Suc i \<le> length s \<and> startswith (drop (Suc i) s) p"
proof (cases "drop i s")
  case Nil
  with assms show ?thesis by simp
next
  case (Cons y ys)
  with assms have "drop i s = x # ys" "startswith ys p" by simp_all
  with drop_eq_Cons_Suc [of i s x ys] show ?thesis by simp
qed

lemma header_end_search_iff:
  "re_search header_end_pattern s \<noteq> None \<longleftrightarrow> bytes_in [LF, LF] s \<or> bytes_in [LF, CR, LF] s"
proof
  assume "re_search header_end_pattern s \<noteq> None"
  then obtain i where i: "i \<le> length s" "header_end_pattern (drop i s) \<noteq> None"
    by (auto simp: re_search_None_iff)
  note d = i(2) [unfolded header_end_pattern_iff]
  from d consider "startswith (drop i s) [CR, LF, CR, LF]" | "startswith (drop i s) [CR, LF, LF]"
    | "startswith (drop i s) [LF, CR, LF]" | "startswith (drop i s) [LF, LF]"
    by fast
  then show "bytes_in [LF, LF] s \<or> bytes_in [LF, CR, LF] s"
  proof cases
    case 1
    from startswith_drop_Suc [OF 1]
    have "Suc i \<le> length s" "startswith (drop (Suc i) s) [LF, CR, LF]" by simp_all
    then have "bytes_in [LF, CR, LF] s" by (rule bytes_in_dropI)
    then show ?thesis by simp
  next
    case 2
    from startswith_drop_Suc [OF 2]
    have "Suc i \<le> length s" "startswith (drop (Suc i) s) [LF, LF]" by simp_all
    then have "bytes_in [LF, LF] s" by (rule bytes_in_dropI)
    then show ?thesis by simp
  next
    case 3
    with i(1) have "bytes_in [LF, CR, LF] s" by (rule bytes_in_dropI)
    then show ?thesis by simp
  next
    case 4
    with i(1) have "bytes_in [LF, LF] s" by (rule bytes_in_dropI)
    then show ?thesis by simp
  qed
next
  assume a: "bytes_in [LF, LF] s \<or> bytes_in [LF, CR, LF] s"
  have "\<exists>i\<le>length s. header_end_pattern (drop i s) \<noteq> None"
  proof (rule disjE [OF a])
    assume "bytes_in [LF, LF] s"
    then obtain i where i: "i \<le> length s" "startswith (drop i s) [LF, LF]"
      unfolding bytes_in_drop_iff by fast
    from i(2) have "header_end_pattern (drop i s) \<noteq> None"
      unfolding header_end_pattern_iff by fast
    with i(1) show ?thesis by fast
  next
    assume "bytes_in [LF, CR, LF] s"
    then obtain i where i: "i \<le> length s" "startswith (drop i s) [LF, CR, LF]"
      unfolding bytes_in_drop_iff by fast
    from i(2) have "header_end_pattern (drop i s) \<noteq> None"
      unfolding header_end_pattern_iff by fast
    with i(1) show ?thesis by fast
  qed
  then show "re_search header_end_pattern s \<noteq> None"
    by (simp add: re_search_None_iff)
qed

lemma header_end_search_None_iff:
  "re_search header_end_pattern s = None \<longleftrightarrow> \<not> (bytes_in [LF, LF] s \<or> bytes_in [LF, CR, LF] s)"
proof -
  have "(re_search header_end_pattern s = None) = (\<not> re_search header_end_pattern s \<noteq> None)"
    by (simp only: not_not)
  also have "\<dots> = (\<not> (bytes_in [LF, LF] s \<or> bytes_in [LF, CR, LF] s))"
    by (simp only: header_end_search_iff)
  finally show ?thesis .
qed

lemma rewrite_html_None_iff:
  "rewrite_html rm encoding html_part_bytes = None
     \<longleftrightarrow> \<not> (bytes_in [LF, LF] html_part_bytes \<or> bytes_in [LF, CR, LF] html_part_bytes)"
proof -
  have "(rewrite_html rm encoding html_part_bytes = None)
      = (re_search header_end_pattern html_part_bytes = None)"
    by (cases "re_search header_end_pattern html_part_bytes")
       (simp_all add: rewrite_html_def Let_def split: prod.splits)
  then show ?thesis by (simp only: header_end_search_None_iff)
qed

section \<open>Facts about the pattern of the \<open>src\<close> attribute\<close>







lemma lower_byte_gt: "lower_byte c = CHR ''>'' \<Longrightarrow> c = CHR ''>''"
  by (auto simp: lower_byte_def split: option.splits if_splits)


section \<open>The image step and the example, evaluated\<close>

lemma hex8_zero: "hex8 0 = ''00000000''"
  by (simp add: hex8_def hex_digit_def)

lemma image_step_insert:
  "loc_match p = Some (i, n, g) \<Longrightarrow> old_cid_match p = None \<Longrightarrow>
     image_step d p st =
       st\<lparr>ref_map := dict_set (utf8_ignore (strip g)) (new_cid (utf8_ignore (strip g)) d) (ref_map st),
          modified_content_parts := modified_content_parts st @
            [take i p @ take n (drop i p) @ CRLF @ ''Content-ID: <''
               @ new_cid (utf8_ignore (strip g)) d @ ''>'' @ drop (i + n) p]\<rparr>"
  by (simp add: image_step_def loc_match_def old_cid_match_def re_sub1_def Let_def)


lemma example_pass1_image:
  "pass1 (\<lambda>_. 0) [example_image] =
     \<lparr>ref_map = [(''x.png'', ''x.png.00000000@mhtml.fixer'')], html_part_info = None,
      modified_content_parts =
        [CRLF @ ''Content-Type: image/png'' @ CRLF @ ''Content-Location: x.png'' @ CRLF
           @ ''Content-ID: <x.png.00000000@mhtml.fixer>'' @ CRLF @ CRLF @ ''AAA'' @ CRLF]\<rparr>"
proof -
  have c: "classify example_image = Image" by (simp add: classify_def example_image_def)
  have l: "loc_match example_image = Some (27, 23, ''x.png'')" by code_simp
  have o: "old_cid_match example_image = None" by code_simp
  have s: "utf8_ignore (strip ''x.png'') = ''x.png''" by code_simp
  have n: "sanitized_filename ''x.png'' = ''x.png''" by code_simp
  have "pass1 (\<lambda>_. 0) [example_image] = image_step 0 example_image init_state"
    using c by (simp add: pass1_def pass1_step_def)
  also have "\<dots> = \<lparr>ref_map = [(''x.png'', ''x.png.00000000@mhtml.fixer'')], html_part_info = None,
      modified_content_parts =
        [CRLF @ ''Content-Type: image/png'' @ CRLF @ ''Content-Location: x.png'' @ CRLF
           @ ''Content-ID: <x.png.00000000@mhtml.fixer>'' @ CRLF @ CRLF @ ''AAA'' @ CRLF]\<rparr>"
    unfolding image_step_insert [OF l o] s
    by (simp add: new_cid_def n hex8_zero init_state_def example_image_def)
  finally show ?thesis .
qed

lemma example_bare: "classify example_bare_image = Image \<and> loc_match example_bare_image = None"
proof
  show "classify example_bare_image = Image" by (simp add: classify_def example_bare_image_def)
  show "loc_match example_bare_image = None" by code_simp
qed

lemma example_pass1:
  "pass1 (\<lambda>_. 0) example_parts =
     \<lparr>ref_map = [(''x.png'', ''x.png.00000000@mhtml.fixer'')],
      html_part_info = Some (2, ''7bit'', example_html),
      modified_content_parts =
        [CRLF @ ''Content-Type: image/png'' @ CRLF @ ''Content-Location: x.png'' @ CRLF
           @ ''Content-ID: <x.png.00000000@mhtml.fixer>'' @ CRLF @ CRLF @ ''AAA'' @ CRLF,
         example_bare_image, example_html]\<rparr>"
proof -
  have 1: "pass1 (\<lambda>_. 0) [example_image, example_bare_image]
      = pass1_step (\<lambda>_. 0) (pass1 (\<lambda>_. 0) [example_image]) (Suc 0, example_bare_image)"
    using pass1_snoc [of "\<lambda>_. 0" "[example_image]" example_bare_image] by simp
  have 2: "pass1 (\<lambda>_. 0) example_parts
      = pass1_step (\<lambda>_. 0) (pass1 (\<lambda>_. 0) [example_image, example_bare_image]) (Suc (Suc 0), example_html)"
    using pass1_snoc [of "\<lambda>_. 0" "[example_image, example_bare_image]" example_html]
    by (simp add: example_parts_def)
  have m: "classify example_html = Markup" by (simp add: classify_def example_html_def)
  have e: "encoding_match example_html = None" by code_simp
  show ?thesis
    unfolding 2 1 example_pass1_image
    using example_bare m e
    by (simp add: pass1_step_def image_step_def html_step_def)
qed

lemma example_rewritten:
  "rewritten_parts (\<lambda>_. 0) example_parts =
     Inr [CRLF @ ''Content-Type: image/png'' @ CRLF @ ''Content-Location: x.png'' @ CRLF
            @ ''Content-ID: <x.png.00000000@mhtml.fixer>'' @ CRLF @ CRLF @ ''AAA'' @ CRLF,
          example_bare_image,
          CRLF @ ''Content-Type: text/html'' @ CRLF @ CRLF
            @ ''<img src='' @ [DQ] @ ''cid:x.png.00000000@mhtml.fixer'' @ [DQ] @ ''/>'' @ CRLF]"
proof -
  have r: "rewrite_html [(''x.png'', ''x.png.00000000@mhtml.fixer'')] ''7bit'' example_html
      = Some (CRLF @ ''Content-Type: text/html'' @ CRLF @ CRLF
            @ ''<img src='' @ [DQ] @ ''cid:x.png.00000000@mhtml.fixer'' @ [DQ] @ ''/>'' @ CRLF)"
    by code_simp
  show ?thesis
    unfolding rewritten_parts_def example_pass1 using r by simp
qed

lemma example_unsplit:
  "pass1 (\<lambda>_. 0) [example_unsplit_html]
     = \<lparr>ref_map = [], html_part_info = Some (0, ''7bit'', example_unsplit_html),
        modified_content_parts = [example_unsplit_html]\<rparr>"
proof -
  have m: "classify example_unsplit_html = Markup"
    by (simp add: classify_def example_unsplit_html_def)
  have e: "encoding_match example_unsplit_html = None" by code_simp
  show ?thesis
    using m e by (simp add: pass1_def pass1_step_def html_step_def init_state_def)
qed

lemma example_two_markup_pass1:
  "pass1 (\<lambda>_. 0) [example_image, example_html, example_html_second] =
     \<lparr>ref_map = [(''x.png'', ''x.png.00000000@mhtml.fixer'')],
      html_part_info = Some (2, ''7bit'', example_html_second),
      modified_content_parts =
        [CRLF @ ''Content-Type: image/png'' @ CRLF @ ''Content-Location: x.png'' @ CRLF
           @ ''Content-ID: <x.png.00000000@mhtml.fixer>'' @ CRLF @ CRLF @ ''AAA'' @ CRLF,
         example_html, example_html_second]\<rparr>"
proof -
  have 1: "pass1 (\<lambda>_. 0) [example_image, example_html]
      = pass1_step (\<lambda>_. 0) (pass1 (\<lambda>_. 0) [example_image]) (Suc 0, example_html)"
    using pass1_snoc [of "\<lambda>_. 0" "[example_image]" example_html] by simp
  have 2: "pass1 (\<lambda>_. 0) [example_image, example_html, example_html_second]
      = pass1_step (\<lambda>_. 0) (pass1 (\<lambda>_. 0) [example_image, example_html]) (Suc (Suc 0), example_html_second)"
    using pass1_snoc [of "\<lambda>_. 0" "[example_image, example_html]" example_html_second]
    by simp
  have m: "classify example_html = Markup" by (simp add: classify_def example_html_def)
  have e: "encoding_match example_html = None" by code_simp
  have m2: "classify example_html_second = Markup" by (simp add: classify_def example_html_second_def)
  have e2: "encoding_match example_html_second = None" by code_simp
  show ?thesis
    unfolding 2 1 example_pass1_image
    using m e m2 e2
    by (simp add: pass1_step_def html_step_def)
qed




section \<open>Claims\<close>

text \<open>
  C8, as stated: the kind of a part depends only on its header block, so two parts with
  the same header block have the same kind whatever their bodies hold. This fails: the
  two membership tests run over the whole part, so a body that holds the text
  \<open>Content-Type: image\<close> turns a plain-text part into an image part.
\<close>

theorem classify_body_counterexample:
  "classify (''Content-Type: text/plain'' @ CRLF @ CRLF @ ''Content-Type: image'')
     \<noteq> classify (''Content-Type: text/plain'' @ CRLF @ CRLF @ ''hello'')"
  by (simp add: classify_def)

text \<open>
  C8, amended: the kind of a part is decided by whether the literal text
  \<open>Content-Type: image\<close>, and after it \<open>Content-Type: text/html\<close>, occurs anywhere in the
  bytes of the part, header block or body. Two parts with the same header block (a block
  that ends with a line feed, as one cut at the blank line does) have the same kind
  provided neither body holds either literal.
\<close>

theorem classify_same_headers:
  assumes "h \<noteq> []" and "last h = LF"
    and "\<not> bytes_in ''Content-Type: image'' b1" and "\<not> bytes_in ''Content-Type: text/html'' b1"
    and "\<not> bytes_in ''Content-Type: image'' b2" and "\<not> bytes_in ''Content-Type: text/html'' b2"
  shows "classify (h @ b1) = classify (h @ b2)"
proof -
  have i: "bytes_in ''Content-Type: image'' (h @ b) \<longleftrightarrow>
      bytes_in ''Content-Type: image'' h \<or> bytes_in ''Content-Type: image'' b" for b
    using assms(1,2) by (intro bytes_in_append_line) simp_all
  have t: "bytes_in ''Content-Type: text/html'' (h @ b) \<longleftrightarrow>
      bytes_in ''Content-Type: text/html'' h \<or> bytes_in ''Content-Type: text/html'' b" for b
    using assms(1,2) by (intro bytes_in_append_line) simp_all
  show ?thesis
    unfolding classify_def i t using assms(3-6) by simp
qed

theorem classify_same_headers_witness:
  "classify ((''Content-Type: text/html'' @ CRLF @ CRLF) @ ''<p>one</p>'')
     = classify ((''Content-Type: text/html'' @ CRLF @ CRLF) @ ''<img src=a.png>'')
   \<and> classify ((''Content-Type: text/html'' @ CRLF @ CRLF) @ ''<p>one</p>'') = Markup"
proof -
  have "classify ((''Content-Type: text/html'' @ CRLF @ CRLF) @ ''<p>one</p>'')
     = classify ((''Content-Type: text/html'' @ CRLF @ CRLF) @ ''<img src=a.png>'')"
    by (rule classify_same_headers) simp_all
  moreover have "classify ((''Content-Type: text/html'' @ CRLF @ CRLF) @ ''<p>one</p>'') = Markup"
    by (simp add: classify_def)
  ultimately show ?thesis by simp
qed

text \<open>
  C9, as stated: an image part that has no location header is left unchanged and adds
  nothing to the reference map. This fails: the search for the location runs over all
  bytes of the part, so an image part whose header block holds no location but whose
  body holds the text \<open>Content-Location: x.png\<close> gets a map entry and an identifier line
  spliced into its body.
\<close>

theorem image_location_in_body_counterexample:
  "loc_match (CRLF @ ''Content-Type: image/png'' @ CRLF @ CRLF) = None
   \<and> classify ((CRLF @ ''Content-Type: image/png'' @ CRLF @ CRLF) @ ''Content-Location: x.png'' @ CRLF) = Image
   \<and> ref_map (pass1 (\<lambda>_. 0)
        [(CRLF @ ''Content-Type: image/png'' @ CRLF @ CRLF) @ ''Content-Location: x.png'' @ CRLF])
       = [(''x.png'', ''x.png.00000000@mhtml.fixer'')]
   \<and> modified_content_parts (pass1 (\<lambda>_. 0)
        [(CRLF @ ''Content-Type: image/png'' @ CRLF @ CRLF) @ ''Content-Location: x.png'' @ CRLF])
       = [(CRLF @ ''Content-Type: image/png'' @ CRLF @ CRLF) @ ''Content-Location: x.png'' @ CRLF
            @ ''Content-ID: <x.png.00000000@mhtml.fixer>'' @ CRLF]"
proof -
  let ?h = "CRLF @ ''Content-Type: image/png'' @ CRLF @ CRLF"
  let ?p = "?h @ ''Content-Location: x.png'' @ CRLF"
  have h: "loc_match ?h = None" by code_simp
  have c: "classify ?p = Image" by (simp add: classify_def)
  have l: "loc_match ?p = Some (29, 23, ''x.png'')" by code_simp
  have o: "old_cid_match ?p = None" by code_simp
  have s: "utf8_ignore (strip ''x.png'') = ''x.png''" by code_simp
  have n: "sanitized_filename ''x.png'' = ''x.png''" by code_simp
  have st: "pass1 (\<lambda>_. 0) [?p] = image_step 0 ?p init_state"
    using c by (simp add: pass1_def pass1_step_def)
  have "image_step 0 ?p init_state =
      \<lparr>ref_map = [(''x.png'', ''x.png.00000000@mhtml.fixer'')], html_part_info = None,
       modified_content_parts = [?h @ ''Content-Location: x.png'' @ CRLF
            @ ''Content-ID: <x.png.00000000@mhtml.fixer>'' @ CRLF]\<rparr>"
    unfolding image_step_insert [OF l o] s
    by (simp add: new_cid_def n hex8_zero init_state_def)
  with st h c show ?thesis by simp
qed

text \<open>
  C9, amended: an image part in which the location pattern matches nowhere, header
  block or body, is appended to the output parts byte for byte, at its own index, and
  the reference map after it is the reference map before it. The part is also what the
  run writes at that index: pass 2 replaces only the part at the index of a markup part.
\<close>

theorem image_without_location_untouched:
  assumes "i < length ps" and "classify (ps ! i) = Image" and "loc_match (ps ! i) = None"
  shows "ref_map (pass1 rnd (take (Suc i) ps)) = ref_map (pass1 rnd (take i ps))
     \<and> modified_content_parts (pass1 rnd ps) ! i = ps ! i
     \<and> (\<forall>out. rewritten_parts rnd ps = Inr out \<longrightarrow> out ! i = ps ! i)"
proof (intro conjI allI impI)
  have "take (Suc i) ps = take i ps @ [ps ! i]"
    using assms(1) by (simp add: take_Suc_conv_app_nth)
  then have "pass1 rnd (take (Suc i) ps) = pass1_step rnd (pass1 rnd (take i ps)) (i, ps ! i)"
    using assms(1) by (simp add: pass1_snoc)
  then show "ref_map (pass1 rnd (take (Suc i) ps)) = ref_map (pass1 rnd (take i ps))"
    using assms(3) by (simp add: pass1_step_ref_map)
  show keep: "modified_content_parts (pass1 rnd ps) ! i = ps ! i"
    using assms by (simp add: pass1_nth_unchanged)
  fix out
  assume "rewritten_parts rnd ps = Inr out"
  then obtain idx enc b new_part where
    h: "html_part_info (pass1 rnd ps) = Some (idx, enc, b)"
    and out: "out = (modified_content_parts (pass1 rnd ps))[idx := new_part]"
    by (auto simp: rewritten_parts_def Let_def split: option.splits)
  from pass1_html_Some [OF h] have "classify (ps ! idx) = Markup" by simp
  with assms(2) have "idx \<noteq> i" by auto
  with out keep show "out ! i = ps ! i" by simp
qed

theorem image_without_location_untouched_witness:
  "classify (example_parts ! 1) = Image
   \<and> loc_match (example_parts ! 1) = None
   \<and> ref_map (pass1 (\<lambda>_. 0) (take (Suc 1) example_parts))
       = ref_map (pass1 (\<lambda>_. 0) (take 1 example_parts))
   \<and> ref_map (pass1 (\<lambda>_. 0) (take 1 example_parts)) = [(''x.png'', ''x.png.00000000@mhtml.fixer'')]
   \<and> modified_content_parts (pass1 (\<lambda>_. 0) example_parts) ! 1 = example_bare_image
   \<and> (\<exists>out. rewritten_parts (\<lambda>_. 0) example_parts = Inr out \<and> out ! 1 = example_bare_image)"
proof -
  have n: "1 < length example_parts" by (simp add: example_parts_def)
  have p: "example_parts ! 1 = example_bare_image" by (simp add: example_parts_def)
  have c: "classify (example_parts ! 1) = Image" and l: "loc_match (example_parts ! 1) = None"
    unfolding p using example_bare by simp_all
  note t = image_without_location_untouched [OF n c l, of "\<lambda>_. 0"]
  have m: "ref_map (pass1 (\<lambda>_. 0) (take 1 example_parts)) = [(''x.png'', ''x.png.00000000@mhtml.fixer'')]"
    by (simp add: example_parts_def example_pass1_image)
  obtain out where o: "rewritten_parts (\<lambda>_. 0) example_parts = Inr out"
    using example_rewritten by blast
  with t have "out ! 1 = example_parts ! 1" by blast
  with o have e: "\<exists>out. rewritten_parts (\<lambda>_. 0) example_parts = Inr out \<and> out ! 1 = example_bare_image"
    using p by auto
  from t c l m e p show ?thesis by simp
qed

text \<open>
  C5: when the input file does not exist, cannot be read, holds no boundary parameter,
  or has no markup part between its boundaries, the run ends with the matching message
  and the files are exactly what they were: the output is opened only after both passes.
  (With a boundary that is not valid UTF-8 the run is ended earlier, by the exception of
  the message that prints the boundary; the files are untouched all the same.)
\<close>

theorem fatal_before_output:
  "(nodes fs input_file = None \<longrightarrow>
      fix_mhtml_image_references rnd fs input_file = (FileNotFound, fs))
   \<and> (nodes fs input_file = Some NoAccess \<longrightarrow>
      fix_mhtml_image_references rnd fs input_file = (ReadFailed, fs))
   \<and> (nodes fs input_file = Some (File content) \<and> re_search boundary_pattern content = None \<longrightarrow>
      fix_mhtml_image_references rnd fs input_file = (BoundaryNotFound, fs))
   \<and> (nodes fs input_file = Some (File content)
      \<and> re_search boundary_pattern content = Some (i, n, token)
      \<and> (\<forall>p\<in>set (content_parts_of (split_bytes (''--'' @ token) content)). classify p \<noteq> Markup) \<longrightarrow>
      fix_mhtml_image_references rnd fs input_file =
        (if utf8_valid (''--'' @ token) then HtmlPartNotFound else UnicodeDecodeError, fs))"
proof (intro conjI impI)
  assume "nodes fs input_file = None"
  then show "fix_mhtml_image_references rnd fs input_file = (FileNotFound, fs)"
    by (simp add: fix_mhtml_image_references_def)
next
  assume "nodes fs input_file = Some NoAccess"
  then show "fix_mhtml_image_references rnd fs input_file = (ReadFailed, fs)"
    by (simp add: fix_mhtml_image_references_def)
next
  assume "nodes fs input_file = Some (File content) \<and> re_search boundary_pattern content = None"
  then show "fix_mhtml_image_references rnd fs input_file = (BoundaryNotFound, fs)"
    by (simp add: fix_mhtml_image_references_def transform_def)
next
  assume a: "nodes fs input_file = Some (File content)
      \<and> re_search boundary_pattern content = Some (i, n, token)
      \<and> (\<forall>p\<in>set (content_parts_of (split_bytes (''--'' @ token) content)). classify p \<noteq> Markup)"
  then have "html_part_info (pass1 rnd (content_parts_of (split_bytes (''--'' @ token) content))) = None"
    by (simp add: pass1_html_None)
  then have "rewritten_parts rnd (content_parts_of (split_bytes (''--'' @ token) content))
      = Inl HtmlPartNotFound"
    by (simp add: rewritten_parts_def)
  with a show "fix_mhtml_image_references rnd fs input_file =
        (if utf8_valid (''--'' @ token) then HtmlPartNotFound else UnicodeDecodeError, fs)"
    by (simp add: fix_mhtml_image_references_def transform_def)
qed

theorem fatal_before_output_witness:
  "fix_mhtml_image_references (\<lambda>_. 0) \<lparr>nodes = Map.empty, writable = (\<lambda>_. True)\<rparr> ''a.mhtml''
     = (FileNotFound, \<lparr>nodes = Map.empty, writable = (\<lambda>_. True)\<rparr>)
   \<and> fix_mhtml_image_references (\<lambda>_. 0)
       \<lparr>nodes = [''a.mhtml'' \<mapsto> NoAccess], writable = (\<lambda>_. True)\<rparr> ''a.mhtml''
     = (ReadFailed, \<lparr>nodes = [''a.mhtml'' \<mapsto> NoAccess], writable = (\<lambda>_. True)\<rparr>)
   \<and> fix_mhtml_image_references (\<lambda>_. 0)
       \<lparr>nodes = [''a.mhtml'' \<mapsto> File ''no marker here''], writable = (\<lambda>_. True)\<rparr> ''a.mhtml''
     = (BoundaryNotFound,
        \<lparr>nodes = [''a.mhtml'' \<mapsto> File ''no marker here''], writable = (\<lambda>_. True)\<rparr>)"
proof -
  let ?w = "\<lambda>_::bytes. True"
  have b: "re_search boundary_pattern ''no marker here'' = None" by code_simp
  from fatal_before_output [where fs = "\<lparr>nodes = Map.empty, writable = ?w\<rparr>"
      and input_file = "''a.mhtml''" and rnd = "\<lambda>_. 0"]
  have 1: "fix_mhtml_image_references (\<lambda>_. 0) \<lparr>nodes = Map.empty, writable = ?w\<rparr> ''a.mhtml''
     = (FileNotFound, \<lparr>nodes = Map.empty, writable = ?w\<rparr>)" by simp
  from fatal_before_output [where fs = "\<lparr>nodes = [''a.mhtml'' \<mapsto> NoAccess], writable = ?w\<rparr>"
      and input_file = "''a.mhtml''" and rnd = "\<lambda>_. 0"]
  have 2: "fix_mhtml_image_references (\<lambda>_. 0)
       \<lparr>nodes = [''a.mhtml'' \<mapsto> NoAccess], writable = ?w\<rparr> ''a.mhtml''
     = (ReadFailed, \<lparr>nodes = [''a.mhtml'' \<mapsto> NoAccess], writable = ?w\<rparr>)" by simp
  from fatal_before_output [where fs = "\<lparr>nodes = [''a.mhtml'' \<mapsto> File ''no marker here''], writable = ?w\<rparr>"
      and input_file = "''a.mhtml''" and content = "''no marker here''" and rnd = "\<lambda>_. 0"] b
  have 3: "fix_mhtml_image_references (\<lambda>_. 0)
       \<lparr>nodes = [''a.mhtml'' \<mapsto> File ''no marker here''], writable = ?w\<rparr> ''a.mhtml''
     = (BoundaryNotFound,
        \<lparr>nodes = [''a.mhtml'' \<mapsto> File ''no marker here''], writable = ?w\<rparr>)" by simp
  from 1 2 3 show ?thesis by simp
qed

text \<open>
  C10: the cut of the selected markup part into header block and body goes through
  exactly when the part holds a blank-line separator, that is a line feed directly
  followed by a line end (\<open>\n\<close> or \<open>\r\n\<close>; each of \<open>\r\n\r\n\<close>, \<open>\r\n\n\<close>, \<open>\n\r\n\<close> and
  \<open>\n\n\<close> holds one). Without it the search for the end of the header finds nothing, the
  access to the position of the match raises \<open>AttributeError\<close> and the run ends there; with
  it pass 2 returns the parts to write.
\<close>

theorem header_split_total_iff:
  assumes "html_part_info (pass1 rnd content_parts) = Some (index, encoding, html_part_bytes)"
  shows "(re_search header_end_pattern html_part_bytes = None)
           = (\<not> (bytes_in [LF, LF] html_part_bytes \<or> bytes_in [LF, CR, LF] html_part_bytes))
     \<and> (rewritten_parts rnd content_parts = Inl AttributeError)
           = (\<not> (bytes_in [LF, LF] html_part_bytes \<or> bytes_in [LF, CR, LF] html_part_bytes))
     \<and> (\<exists>out. rewritten_parts rnd content_parts = Inr out)
           = (bytes_in [LF, LF] html_part_bytes \<or> bytes_in [LF, CR, LF] html_part_bytes)"
proof (intro conjI)
  let ?sep = "bytes_in [LF, LF] html_part_bytes \<or> bytes_in [LF, CR, LF] html_part_bytes"
  let ?r = "rewrite_html (ref_map (pass1 rnd content_parts)) encoding html_part_bytes"
  show "(re_search header_end_pattern html_part_bytes = None) = (\<not> ?sep)"
    by (rule header_end_search_None_iff)
  have n: "(?r = None) = (\<not> ?sep)" by (rule rewrite_html_None_iff)
  show "(rewritten_parts rnd content_parts = Inl AttributeError) = (\<not> ?sep)"
    unfolding n [symmetric] using assms
    by (cases ?r) (simp_all add: rewritten_parts_def Let_def)
  have "(\<exists>out. rewritten_parts rnd content_parts = Inr out) = (?r \<noteq> None)"
    using assms by (cases ?r) (simp_all add: rewritten_parts_def Let_def)
  with n show "(\<exists>out. rewritten_parts rnd content_parts = Inr out) = ?sep"
    by simp
qed

theorem header_split_total_iff_witness:
  "html_part_info (pass1 (\<lambda>_. 0) [example_unsplit_html]) = Some (0, ''7bit'', example_unsplit_html)
   \<and> \<not> bytes_in [LF, LF] example_unsplit_html
   \<and> \<not> bytes_in [LF, CR, LF] example_unsplit_html
   \<and> re_search header_end_pattern example_unsplit_html = None
   \<and> rewritten_parts (\<lambda>_. 0) [example_unsplit_html] = Inl AttributeError
   \<and> html_part_info (pass1 (\<lambda>_. 0) example_parts) = Some (2, ''7bit'', example_html)
   \<and> bytes_in [LF, CR, LF] example_html
   \<and> re_search header_end_pattern example_html \<noteq> None
   \<and> rewritten_parts (\<lambda>_. 0) example_parts \<noteq> Inl AttributeError
   \<and> (\<exists>out. rewritten_parts (\<lambda>_. 0) example_parts = Inr out)"
proof -
  have h: "html_part_info (pass1 (\<lambda>_. 0) [example_unsplit_html]) = Some (0, ''7bit'', example_unsplit_html)"
    unfolding example_unsplit by simp
  have a: "\<not> bytes_in [LF, LF] example_unsplit_html" by (simp add: example_unsplit_html_def)
  have b: "\<not> bytes_in [LF, CR, LF] example_unsplit_html" by (simp add: example_unsplit_html_def)
  note t = header_split_total_iff [OF h]
  from t a b have 1: "re_search header_end_pattern example_unsplit_html = None" by simp
  from t a b have 2: "rewritten_parts (\<lambda>_. 0) [example_unsplit_html] = Inl AttributeError" by simp
  have h': "html_part_info (pass1 (\<lambda>_. 0) example_parts) = Some (2, ''7bit'', example_html)"
    unfolding example_pass1 by simp
  have c: "bytes_in [LF, CR, LF] example_html" by (simp add: example_html_def)
  note t' = header_split_total_iff [OF h']
  from t' c have 3: "re_search header_end_pattern example_html \<noteq> None"
    by (simp only: simp_thms)
  from t' c have 4: "rewritten_parts (\<lambda>_. 0) example_parts \<noteq> Inl AttributeError"
    by (simp only: simp_thms)
  from t' c have 5: "\<exists>out. rewritten_parts (\<lambda>_. 0) example_parts = Inr out"
    by (simp only: simp_thms)
  from h a b 1 2 h' c 3 4 5 show ?thesis by (intro conjI)
qed

text \<open>
  C1, as stated: when the archive has a markup part, the first one in part order is the
  one rewritten, and no other. This fails: pass 1 stores the markup part it meets in
  \<open>html_part_info\<close> each time, so what pass 2 rewrites is the last one. With an image part
  and two markup parts, the first markup part is written as it was, although its image
  tag resolves through the reference map, and the second one is rewritten.
\<close>

theorem first_markup_counterexample:
  "classify example_html = Markup
   \<and> classify example_html_second = Markup
   \<and> rewrite_html [(''x.png'', ''x.png.00000000@mhtml.fixer'')] ''7bit'' example_html
       = Some (CRLF @ ''Content-Type: text/html'' @ CRLF @ CRLF
            @ ''<img src='' @ [DQ] @ ''cid:x.png.00000000@mhtml.fixer'' @ [DQ] @ ''/>'' @ CRLF)
   \<and> rewritten_parts (\<lambda>_. 0) [example_image, example_html, example_html_second] =
       Inr [CRLF @ ''Content-Type: image/png'' @ CRLF @ ''Content-Location: x.png'' @ CRLF
              @ ''Content-ID: <x.png.00000000@mhtml.fixer>'' @ CRLF @ CRLF @ ''AAA'' @ CRLF,
            CRLF @ ''Content-Type: text/html'' @ CRLF @ CRLF @ ''<img src=x.png>'' @ CRLF,
            CRLF @ ''Content-Type: text/html'' @ CRLF @ CRLF @ ''<img src=y.png/>'' @ CRLF]"
proof (intro conjI)
  show "classify example_html = Markup" by (simp add: classify_def example_html_def)
  show "classify example_html_second = Markup" by (simp add: classify_def example_html_second_def)
  show "rewrite_html [(''x.png'', ''x.png.00000000@mhtml.fixer'')] ''7bit'' example_html
       = Some (CRLF @ ''Content-Type: text/html'' @ CRLF @ CRLF
            @ ''<img src='' @ [DQ] @ ''cid:x.png.00000000@mhtml.fixer'' @ [DQ] @ ''/>'' @ CRLF)"
    by code_simp
  have r: "rewrite_html [(''x.png'', ''x.png.00000000@mhtml.fixer'')] ''7bit'' example_html_second
      = Some (CRLF @ ''Content-Type: text/html'' @ CRLF @ CRLF @ ''<img src=y.png/>'' @ CRLF)"
    by code_simp
  show "rewritten_parts (\<lambda>_. 0) [example_image, example_html, example_html_second] =
       Inr [CRLF @ ''Content-Type: image/png'' @ CRLF @ ''Content-Location: x.png'' @ CRLF
              @ ''Content-ID: <x.png.00000000@mhtml.fixer>'' @ CRLF @ CRLF @ ''AAA'' @ CRLF,
            CRLF @ ''Content-Type: text/html'' @ CRLF @ CRLF @ ''<img src=x.png>'' @ CRLF,
            CRLF @ ''Content-Type: text/html'' @ CRLF @ CRLF @ ''<img src=y.png/>'' @ CRLF]"
    unfolding rewritten_parts_def example_two_markup_pass1 using r
    by (simp add: example_html_def)
qed

text \<open>
  C1, amended: when no part is a markup part, pass 2 ends with the message that the
  markup part is missing and the run leaves the files as they were. When there is one,
  the part rewritten is the last markup part in part order: the parts written are the
  parts of pass 1 with that one index replaced (or the run is ended by the exception of
  the header cut), so every other part, and in particular every earlier markup part, is
  written as pass 1 left it.
\<close>

theorem last_markup_processed:
  "((\<forall>p\<in>set ps. classify p \<noteq> Markup) \<longrightarrow> rewritten_parts rnd ps = Inl HtmlPartNotFound)
   \<and> (nodes fs input_file = Some (File content)
        \<and> re_search boundary_pattern content = Some (a, n, token)
        \<and> utf8_valid (''--'' @ token)
        \<and> (\<forall>p\<in>set (content_parts_of (split_bytes (''--'' @ token) content)). classify p \<noteq> Markup) \<longrightarrow>
       fix_mhtml_image_references rnd fs input_file = (HtmlPartNotFound, fs))
   \<and> (i < length ps \<and> classify (ps ! i) = Markup
        \<and> (\<forall>j. i < j \<and> j < length ps \<longrightarrow> classify (ps ! j) \<noteq> Markup) \<longrightarrow>
       rewritten_parts rnd ps =
         (case rewrite_html (ref_map (pass1 rnd ps))
                 (case encoding_match (ps ! i) of Some (_, _, g) \<Rightarrow> lower (strip g) | None \<Rightarrow> ''7bit'')
                 (ps ! i) of
            None \<Rightarrow> Inl AttributeError
          | Some new_part \<Rightarrow> Inr ((modified_content_parts (pass1 rnd ps))[i := new_part]))
       \<and> (\<forall>out k. rewritten_parts rnd ps = Inr out \<and> k < length ps \<and> k \<noteq> i \<longrightarrow>
             out ! k = modified_content_parts (pass1 rnd ps) ! k
             \<and> (classify (ps ! k) = Markup \<longrightarrow> out ! k = ps ! k)))"
proof (intro conjI impI allI)
  assume "\<forall>p\<in>set ps. classify p \<noteq> Markup"
  then have "html_part_info (pass1 rnd ps) = None" by (simp add: pass1_html_None)
  then show "rewritten_parts rnd ps = Inl HtmlPartNotFound" by (simp add: rewritten_parts_def)
next
  assume f: "nodes fs input_file = Some (File content)
        \<and> re_search boundary_pattern content = Some (a, n, token)
        \<and> utf8_valid (''--'' @ token)
        \<and> (\<forall>p\<in>set (content_parts_of (split_bytes (''--'' @ token) content)). classify p \<noteq> Markup)"
  then have "html_part_info (pass1 rnd (content_parts_of (split_bytes (''--'' @ token) content))) = None"
    by (simp add: pass1_html_None)
  then have "rewritten_parts rnd (content_parts_of (split_bytes (''--'' @ token) content))
      = Inl HtmlPartNotFound"
    by (simp add: rewritten_parts_def)
  with f show "fix_mhtml_image_references rnd fs input_file = (HtmlPartNotFound, fs)"
    by (simp add: fix_mhtml_image_references_def transform_def)
next
  assume a: "i < length ps \<and> classify (ps ! i) = Markup
        \<and> (\<forall>j. i < j \<and> j < length ps \<longrightarrow> classify (ps ! j) \<noteq> Markup)"
  then have h: "html_part_info (pass1 rnd ps) =
     Some (i, (case encoding_match (ps ! i) of Some (_, _, g) \<Rightarrow> lower (strip g) | None \<Rightarrow> ''7bit''), ps ! i)"
    by (intro pass1_last_markup) simp_all
  show r: "rewritten_parts rnd ps =
         (case rewrite_html (ref_map (pass1 rnd ps))
                 (case encoding_match (ps ! i) of Some (_, _, g) \<Rightarrow> lower (strip g) | None \<Rightarrow> ''7bit'')
                 (ps ! i) of
            None \<Rightarrow> Inl AttributeError
          | Some new_part \<Rightarrow> Inr ((modified_content_parts (pass1 rnd ps))[i := new_part]))"
    unfolding rewritten_parts_def Let_def h by simp
  fix out k
  assume b: "rewritten_parts rnd ps = Inr out \<and> k < length ps \<and> k \<noteq> i"
  with r obtain new_part where "out = (modified_content_parts (pass1 rnd ps))[i := new_part]"
    by (auto split: option.splits)
  with b show o: "out ! k = modified_content_parts (pass1 rnd ps) ! k" by simp
  assume "classify (ps ! k) = Markup"
  with b have "modified_content_parts (pass1 rnd ps) ! k = ps ! k"
    by (intro pass1_nth_unchanged) simp_all
  with o show "out ! k = ps ! k" by simp
qed

theorem last_markup_processed_witness:
  "classify example_bare_image = Image
   \<and> rewritten_parts (\<lambda>_. 0) [example_bare_image] = Inl HtmlPartNotFound
   \<and> re_search boundary_pattern example_no_markup_file = Some (33, 12, ''B'')
   \<and> content_parts_of (split_bytes ''--B'' example_no_markup_file)
       = [CRLF @ ''Content-Type: text/plain'' @ CRLF @ CRLF @ ''hi'' @ CRLF]
   \<and> fix_mhtml_image_references (\<lambda>_. 0)
         \<lparr>nodes = [''a.mhtml'' \<mapsto> File example_no_markup_file], writable = (\<lambda>_. True)\<rparr> ''a.mhtml''
       = (HtmlPartNotFound,
          \<lparr>nodes = [''a.mhtml'' \<mapsto> File example_no_markup_file], writable = (\<lambda>_. True)\<rparr>)
   \<and> classify ([example_image, example_html, example_html_second] ! 1) = Markup
   \<and> classify ([example_image, example_html, example_html_second] ! 2) = Markup
   \<and> rewritten_parts (\<lambda>_. 0) [example_image, example_html, example_html_second] =
       Inr ((modified_content_parts (pass1 (\<lambda>_. 0) [example_image, example_html, example_html_second]))
              [2 := CRLF @ ''Content-Type: text/html'' @ CRLF @ CRLF @ ''<img src=y.png/>'' @ CRLF])
   \<and> (\<exists>out. rewritten_parts (\<lambda>_. 0) [example_image, example_html, example_html_second] = Inr out
          \<and> out ! 1 = example_html)"
proof -
  let ?w = "\<lambda>_::bytes. True"
  let ?ps = "[example_image, example_html, example_html_second]"
  let ?fs = "\<lparr>nodes = [''a.mhtml'' \<mapsto> File example_no_markup_file], writable = ?w\<rparr>"
  have n: "\<forall>p\<in>set [example_bare_image]. classify p \<noteq> Markup"
    using example_bare by simp
  from last_markup_processed [where ps = "[example_bare_image]" and rnd = "\<lambda>_. 0"] n
  have 1: "rewritten_parts (\<lambda>_. 0) [example_bare_image] = Inl HtmlPartNotFound" by blast
  have b: "re_search boundary_pattern example_no_markup_file = Some (33, 12, ''B'')" by code_simp
  have u: "utf8_valid (''--'' @ ''B'')" by code_simp
  have c: "content_parts_of (split_bytes (''--'' @ ''B'') example_no_markup_file)
       = [CRLF @ ''Content-Type: text/plain'' @ CRLF @ CRLF @ ''hi'' @ CRLF]" by code_simp
  have c': "\<forall>p\<in>set (content_parts_of (split_bytes (''--'' @ ''B'') example_no_markup_file)).
      classify p \<noteq> Markup"
    unfolding c by (simp add: classify_def)
  have f: "nodes ?fs ''a.mhtml'' = Some (File example_no_markup_file)" by simp
  from last_markup_processed [where fs = ?fs and input_file = "''a.mhtml''" and rnd = "\<lambda>_. 0"
      and content = example_no_markup_file and a = 33 and n = 12 and token = "''B''"] f b u c'
  have 2: "fix_mhtml_image_references (\<lambda>_. 0) ?fs ''a.mhtml'' = (HtmlPartNotFound, ?fs)" by blast
  have m1: "classify (?ps ! 1) = Markup" by (simp add: classify_def example_html_def)
  have m2: "classify (?ps ! 2) = Markup" by (simp add: classify_def example_html_second_def)
  have l: "\<forall>j. 2 < j \<and> j < length ?ps \<longrightarrow> classify (?ps ! j) \<noteq> Markup"
  proof (intro allI impI)
    fix j :: nat
    assume a: "2 < j \<and> j < length ?ps"
    have "length ?ps = 3" by simp
    with a have "2 < j \<and> j < 3" by (simp only:)
    then have False by arith
    then show "classify (?ps ! j) \<noteq> Markup" ..
  qed
  have e2: "encoding_match example_html_second = None" by code_simp
  have r: "rewrite_html [(''x.png'', ''x.png.00000000@mhtml.fixer'')] ''7bit'' example_html_second
      = Some (CRLF @ ''Content-Type: text/html'' @ CRLF @ CRLF @ ''<img src=y.png/>'' @ CRLF)"
    by code_simp
  have rm: "ref_map (pass1 (\<lambda>_. 0) ?ps) = [(''x.png'', ''x.png.00000000@mhtml.fixer'')]"
    unfolding example_two_markup_pass1 by simp
  note t = last_markup_processed [where ps = ?ps and rnd = "\<lambda>_. 0" and i = 2]
  from t m2 l have 3: "rewritten_parts (\<lambda>_. 0) ?ps =
       Inr ((modified_content_parts (pass1 (\<lambda>_. 0) ?ps))
              [2 := CRLF @ ''Content-Type: text/html'' @ CRLF @ CRLF @ ''<img src=y.png/>'' @ CRLF])"
    by (simp add: rm e2 r)
  from t m1 m2 l 3 have 4: "((modified_content_parts (pass1 (\<lambda>_. 0) ?ps))
              [2 := CRLF @ ''Content-Type: text/html'' @ CRLF @ CRLF @ ''<img src=y.png/>'' @ CRLF]) ! 1
      = example_html"
    by simp
  from 3 4 have 5: "\<exists>out. rewritten_parts (\<lambda>_. 0) ?ps = Inr out \<and> out ! 1 = example_html"
    by blast
  from example_bare 1 b c 2 m1 m2 3 5 show ?thesis by simp
qed







end
